theory Spec2Isabelle
  imports Main "HOL-Library.Sublist"
begin

section \<open>Strings\<close>

text \<open>
  Strings are lists of bytes, the UTF-8 encoding of the text.  \<open>lower\<close> is SQL's
  \<^verbatim>\<open>LOWER\<close> as SQLite has it: it lower-cases the ASCII letters and leaves every other
  byte as it is.  Python's \<^verbatim>\<open>str.lower\<close>, which follows the Unicode case mapping, is not
  defined here: it is a parameter of the model, the field \<open>str_lower\<close> of the bot.
\<close>

definition lower_char :: "char \<Rightarrow> char" where
  "lower_char c =
     (case map_of (zip ''ABCDEFGHIJKLMNOPQRSTUVWXYZ'' ''abcdefghijklmnopqrstuvwxyz'') c of
        Some l \<Rightarrow> l
      | None \<Rightarrow> c)"

definition lower :: "string \<Rightarrow> string" where
  "lower s = map lower_char s"

text \<open>
  Python's \<^verbatim>\<open>needle in haystack\<close> on strings: contiguous containment.  On well-formed
  UTF-8 it is the same on the bytes as on the code points, and so is replacement.
\<close>

fun py_in :: "string \<Rightarrow> string \<Rightarrow> bool" where
  "py_in needle [] = (needle = [])"
| "py_in needle (c # cs) = (prefix needle (c # cs) \<or> py_in needle cs)"

text \<open>
  Python's \<^verbatim>\<open>s.replace(old, new)\<close>: every non-overlapping occurrence of \<open>old\<close>, found
  from the left, is replaced.  The counter of \<open>replace_aux\<close> is the number of characters
  of an occurrence just replaced that are still to be skipped.
\<close>

fun replace_aux :: "string \<Rightarrow> string \<Rightarrow> nat \<Rightarrow> string \<Rightarrow> string" where
  "replace_aux old new n [] = []"
| "replace_aux old new (Suc n) (c # cs) = replace_aux old new n cs"
| "replace_aux old new 0 (c # cs) =
     (if prefix old (c # cs) then new @ replace_aux old new (length old - 1) cs
      else c # replace_aux old new 0 cs)"

definition replace :: "string \<Rightarrow> string \<Rightarrow> string \<Rightarrow> string" where
  "replace old new s =
     (if old = [] then new @ concat (map (\<lambda>c. c # new) s) else replace_aux old new 0 s)"

text \<open>Python's \<^verbatim>\<open>str\<close> on an integer: its decimal digits, with a sign when negative.\<close>

definition digit :: "nat \<Rightarrow> char" where
  "digit d = ''0123456789'' ! d"

function str_nat :: "nat \<Rightarrow> string" where
  "str_nat n = (if n < 10 then [digit n] else str_nat (n div 10) @ [digit (n mod 10)])"
  by pat_completeness auto
termination
  by (relation "measure id") auto

declare str_nat.simps [simp del]

definition str :: "int \<Rightarrow> string" where
  "str i = (if i < 0 then CHR ''-'' # str_nat (nat (- i)) else str_nat (nat i))"

text \<open>\<^verbatim>\<open>str(warnings)\<close> in \<^verbatim>\<open>get_warning_count\<close>, where the value may be \<^verbatim>\<open>None\<close>.\<close>

definition str_opt :: "int option \<Rightarrow> string" where
  "str_opt v = (case v of None \<Rightarrow> ''None'' | Some i \<Rightarrow> str i)"

section \<open>Data model\<close>

type_synonym user_id = string
type_synonym room_id = string
type_synonym event_id = string

text \<open>
  The message types the source names, and every other value of the field; the empty one
  stands for a content that has no message type.
\<close>

datatype msgtype = TEXT | EMOTE | OtherMsgtype string

datatype event_type = ROOM_MESSAGE | REACTION | OtherEventType string

text \<open>
  The fields of a \<^verbatim>\<open>MessageEvent\<close> that the plugin reads: \<open>relates_to_key\<close> is
  \<^verbatim>\<open>evt.content.relates_to.key\<close> and \<open>reply_to\<close> is \<^verbatim>\<open>evt.content.get_reply_to()\<close>.
\<close>

record message_event =
  sender :: user_id
  room_id :: room_id
  event_id :: event_id
  etype :: event_type
  msgtype :: msgtype
  body :: string
  relates_to_key :: "string option"
  reply_to :: "event_id option"

text \<open>The configuration keys copied by \<^verbatim>\<open>Config.do_update\<close>.\<close>

record config =
  config_keywords :: "string list"
  notification_room :: string
  message_warning :: string
  message_mute :: string
  message_report :: string
  message_notify :: string

text \<open>
  What the plugin reads of itself: \<^verbatim>\<open>self.client.mxid\<close>, \<^verbatim>\<open>self.config\<close>, and the
  function that Python's \<^verbatim>\<open>str.lower\<close> is.  Nothing is assumed of \<open>str_lower\<close>: what is
  proved of a bot holds for every function in its place.
\<close>

record bot =
  mxid :: user_id
  config :: config
  str_lower :: "string \<Rightarrow> string"

text \<open>
  The content of the \<^verbatim>\<open>m.room.power_levels\<close> state event.  The plugin touches
  \<open>users\<close> only; the other fields travel with it.
\<close>

record power_levels =
  users :: "user_id \<rightharpoonup> int"
  users_default :: int
  events :: "string \<rightharpoonup> int"
  events_default :: int
  state_default :: int
  invite :: int
  kick :: int
  ban :: int
  redact :: int

text \<open>A \<^verbatim>\<open>TextMessageEventContent\<close> with \<^verbatim>\<open>msgtype=TEXT, format=HTML\<close>.\<close>

record text_content =
  c_body :: string
  c_formatted_body :: string

text \<open>What \<^verbatim>\<open>evt.reply\<close> is given: a plain string or a content.\<close>

datatype payload = Str string | Content text_content

text \<open>
  The exceptions the source names, the \<^verbatim>\<open>TypeError\<close> that awaiting a value that is not
  awaitable raises, and any other exception of a collaborator.  \<^verbatim>\<open>MForbidden\<close> carries
  its \<^verbatim>\<open>message\<close>; it is listed before its base class \<^verbatim>\<open>MatrixRequestError\<close> in
  \<^verbatim>\<open>mute\<close>, so it is its own constructor.
\<close>

datatype exn = MForbidden string | MatrixRequestError | IntentError | TypeError | OtherException

text \<open>Every call on a collaborator (logger, database, client) is recorded, in order.\<close>

datatype action =
    LogDebug string
  | LogKeywords "string list"
  | LogException string
  | DbSelect user_id
  | DbUpsert user_id int
  | GetStateEvent room_id
  | SendStateEvent room_id power_levels
  | Reply room_id event_id payload

text \<open>
  The world the plugin acts on: the rows of table \<^verbatim>\<open>data\<close> in insertion order, the
  homeserver's answer to \<^verbatim>\<open>get_state_event(room, ROOM_POWER_LEVELS)\<close>, the exception (if
  any) it answers \<^verbatim>\<open>send_state_event\<close> with, and the record of the calls made so far.
  Exceptions of the database and of \<^verbatim>\<open>evt.reply\<close> are caught nowhere in the source and
  are left out: these calls succeed in the model.
\<close>

record world =
  db :: "(user_id \<times> int) list"
  room_state :: "room_id \<Rightarrow> exn + power_levels"
  send_state_error :: "room_id \<Rightarrow> exn option"
  trace :: "action list"

text \<open>
  A coroutine either raises, leaving the world as it was at the raise, or returns.
\<close>

type_synonym outcome = "(exn \<times> world) + world"

fun final :: "outcome \<Rightarrow> world" where
  "final (Inl (e, w)) = w"
| "final (Inr w) = w"

fun raised :: "outcome \<Rightarrow> exn option" where
  "raised (Inl (e, w)) = Some e"
| "raised (Inr w) = None"

definition emit :: "action \<Rightarrow> world \<Rightarrow> world" where
  "emit a w = w\<lparr>trace := trace w @ [a]\<rparr>"

text \<open>The calls made between two worlds, the second reached from the first.\<close>

definition emitted :: "world \<Rightarrow> world \<Rightarrow> action list" where
  "emitted w w' = drop (length (trace w)) (trace w')"

section \<open>The warning store\<close>

text \<open>
  \<^verbatim>\<open>SELECT warnings FROM data WHERE LOWER(user)=LOWER($1)\<close> through \<^verbatim>\<open>fetchval\<close>: the
  column of the first row that matches, \<^verbatim>\<open>None\<close> when no row does.  SQL leaves the
  order of several matching rows open; the model takes the order of insertion.
\<close>

definition fetchval :: "(user_id \<times> int) list \<Rightarrow> user_id \<Rightarrow> int option" where
  "fetchval rows u =
     (case filter (\<lambda>(u', c). lower u' = lower u) rows of
        [] \<Rightarrow> None
      | (u', c) # _ \<Rightarrow> Some c)"

text \<open>
  \<^verbatim>\<open>INSERT INTO data (user, warnings) VALUES ($1, $2) ON CONFLICT (user) DO UPDATE SET
  warnings=excluded.warnings\<close>: the conflict target is the primary key \<^verbatim>\<open>user TEXT\<close>,
  which compares the text as it is.
\<close>

definition upsert :: "(user_id \<times> int) list \<Rightarrow> user_id \<Rightarrow> int \<Rightarrow> (user_id \<times> int) list" where
  "upsert rows u c =
     (if u \<in> fst ` set rows then map (\<lambda>(u', c'). if u' = u then (u', c) else (u', c')) rows
      else rows @ [(u, c)])"

definition get_warning_count :: "user_id \<Rightarrow> world \<Rightarrow> int \<times> world" where
  "get_warning_count u w =
     (let warnings = fetchval (db w) u;
          w1 = emit (DbSelect u) w;
          w2 = emit (LogDebug (''Warning count for user: '' @ u @ '' is: '' @ str_opt warnings)) w1
      in case warnings of
           None \<Rightarrow> (0, w2)
         | Some c \<Rightarrow> (if c \<noteq> 0 then (c, w2) else (0, w2)))"

definition set_warning_count :: "user_id \<Rightarrow> int \<Rightarrow> world \<Rightarrow> world" where
  "set_warning_count u warnings w =
     (let w1 = emit (LogDebug (''set warning counter for '' @ u @ '' to '' @ str warnings)) w;
          w2 = emit (DbUpsert u warnings) w1
      in w2\<lparr>db := upsert (db w2) u warnings\<rparr>)"

section \<open>Messages\<close>

definition mention :: "user_id \<Rightarrow> string" where
  "mention u = ''<a href='' @ [CHR 0x27] @ ''https://matrix.to/#/'' @ u @ [CHR 0x27] @ ''>'' @ u @ ''</a>''"

definition prettify_usernames :: "string \<Rightarrow> user_id \<Rightarrow> event_id \<Rightarrow> user_id option \<Rightarrow> text_content" where
  "prettify_usernames content user eid reporter =
     (let content' = (case reporter of
                        Some r \<Rightarrow> replace ''[reporter]'' (mention r) content
                      | None \<Rightarrow> content)
      in \<lparr>c_body = content', c_formatted_body = replace ''[user]'' (mention user) content'\<rparr>)"

section \<open>Muting\<close>

text \<open>
  The two \<^verbatim>\<open>except\<close> clauses of \<^verbatim>\<open>mute\<close>.  In the first, \<^verbatim>\<open>self.log.exception(...)\<close>
  logs and returns \<^verbatim>\<open>None\<close>, and the \<^verbatim>\<open>await\<close> applied to it raises \<^verbatim>\<open>TypeError\<close>
  out of the handler.  The second logs, replies to the event and returns.  Any other
  exception propagates.
\<close>

definition mute_except :: "message_event \<Rightarrow> exn \<Rightarrow> world \<Rightarrow> outcome" where
  "mute_except evt e w =
     (case e of
        MForbidden m \<Rightarrow>
          Inl (TypeError,
               emit (LogException (''I don't seem to have permission to update power levels: '' @ m)) w)
      | MatrixRequestError \<Rightarrow>
          Inr (emit (Reply (room_id evt) (event_id evt)
                       (Str ''Failed to update power levels (see logs for more details)''))
                 (emit (LogException ''Failed to update power levels'') w))
      | IntentError \<Rightarrow>
          Inr (emit (Reply (room_id evt) (event_id evt)
                       (Str ''Failed to update power levels (see logs for more details)''))
                 (emit (LogException ''Failed to update power levels'') w))
      | _ \<Rightarrow> Inl (e, w))"

definition mute :: "message_event \<Rightarrow> world \<Rightarrow> outcome" where
  "mute evt w =
     (let user_id = sender evt;
          level = - 1;
          w1 = emit (GetStateEvent (room_id evt)) w
      in case room_state w1 (room_id evt) of
           Inl e \<Rightarrow> mute_except evt e w1
         | Inr levels \<Rightarrow>
             (let levels' = levels\<lparr>users := (users levels)(user_id \<mapsto> level)\<rparr>;
                  w2 = emit (SendStateEvent (room_id evt) levels') w1
              in case send_state_error w2 (room_id evt) of
                   Some e \<Rightarrow> mute_except evt e w2
                 | None \<Rightarrow> Inr (w2\<lparr>room_state := (room_state w2)(room_id evt := Inr levels')\<rparr>)))"

section \<open>The event handler\<close>

definition allowed_msgtypes :: "msgtype list" where
  "allowed_msgtypes = [TEXT, EMOTE]"

text \<open>The police-car-light emoji of line 94, U+1F6A8, in UTF-8.\<close>

definition report_emoji :: string where
  "report_emoji = [CHR 0xF0, CHR 0x9F, CHR 0x9A, CHR 0xA8]"

text \<open>
  Line 95.  \<^verbatim>\<open>self.report\<close> is the command handler that \<^verbatim>\<open>@command.new\<close> builds, an
  \<^verbatim>\<open>async\<close> callable: calling it builds a coroutine object, and nothing of the handler
  runs unless that object is awaited.  Line 95 drops it.
\<close>

definition dropped_coroutine :: "world \<Rightarrow> world" where
  "dropped_coroutine w = w"

text \<open>Lines 99 to 111: the body of the loop for a keyword found in the message.\<close>

definition on_match :: "bot \<Rightarrow> message_event \<Rightarrow> string \<Rightarrow> world \<Rightarrow> outcome" where
  "on_match b evt keyword w =
     (let w1 = emit (LogDebug ''keyword found'') w;
          (warnings, w2) = get_warning_count (sender evt) w1;
          warnings = warnings mod 3
      in case (if warnings > 1 then mute evt w2 else Inr w2) of
           Inl x \<Rightarrow> Inl x
         | Inr w3 \<Rightarrow>
             (let content = (if warnings > 1 then message_mute (config b)
                             else message_warning (config b));
                  warnings = warnings + 1;
                  content = prettify_usernames
                              (replace ''[count]'' (str warnings)
                                 (replace ''[keyword]'' keyword content))
                              (sender evt) (event_id evt) None;
                  w4 = set_warning_count (sender evt) warnings w3;
                  w5 = emit (LogDebug ''send reply'') w4
              in Inr (emit (Reply (room_id evt) (event_id evt) (Content content)) w5)))"

text \<open>Line 98: \<^verbatim>\<open>keyword.lower() in evt.content.body.lower()\<close>.\<close>

definition found :: "bot \<Rightarrow> string \<Rightarrow> message_event \<Rightarrow> bool" where
  "found b keyword evt = py_in (str_lower b keyword) (str_lower b (body evt))"

fun keyword_loop :: "bot \<Rightarrow> message_event \<Rightarrow> string list \<Rightarrow> world \<Rightarrow> outcome" where
  "keyword_loop b evt [] w = Inr w"
| "keyword_loop b evt (keyword # ks) w =
     (if found b keyword evt
      then (case on_match b evt keyword w of
              Inl x \<Rightarrow> Inl x
            | Inr w' \<Rightarrow> keyword_loop b evt ks w')
      else keyword_loop b evt ks
             (emit (LogDebug (''no '' @ keyword @ '' in message '' @ body evt)) w))"

definition event_handler :: "bot \<Rightarrow> message_event \<Rightarrow> world \<Rightarrow> outcome" where
  "event_handler b evt w =
     (if sender evt = mxid b \<or> msgtype evt \<notin> set allowed_msgtypes
      then Inr (emit (LogDebug ''message ignored'') w)
      else
        (let w1 = (if etype evt = REACTION
                   then (if relates_to_key evt = Some report_emoji
                         then dropped_coroutine w else w)
                   else w);
             w2 = emit (LogKeywords (config_keywords (config b))) w1
         in keyword_loop b evt (config_keywords (config b)) w2))"

text \<open>
  Line 87: \<^verbatim>\<open>@event.on(EventType.ROOM_MESSAGE)\<close>.  The framework hands the handler the
  events of that type and no others.
\<close>

definition dispatch :: "bot \<Rightarrow> message_event \<Rightarrow> world \<Rightarrow> outcome" where
  "dispatch b evt w = (if etype evt = ROOM_MESSAGE then event_handler b evt w else Inr w)"


section \<open>Observations\<close>

text \<open>
  \<open>mute\<close> returns, rather than raises, in a room where the homeserver answers both
  requests, or answers one with an exception that the second \<^verbatim>\<open>except\<close> clause catches.
\<close>

definition caught :: "exn \<Rightarrow> bool" where
  "caught e = (e = MatrixRequestError \<or> e = IntentError)"

definition mute_returns :: "world \<Rightarrow> room_id \<Rightarrow> bool" where
  "mute_returns w r =
     (case room_state w r of
        Inl e \<Rightarrow> caught e
      | Inr levels \<Rightarrow> (case send_state_error w r of None \<Rightarrow> True | Some e \<Rightarrow> caught e))"

text \<open>The count \<^verbatim>\<open>get_warning_count\<close> returns on the rows of the table.\<close>

definition stored_count :: "(user_id \<times> int) list \<Rightarrow> user_id \<Rightarrow> int" where
  "stored_count rows u = (case fetchval rows u of None \<Rightarrow> 0 | Some c \<Rightarrow> c)"


text \<open>The table has no row for the user, under any spelling.\<close>

definition no_rows :: "(user_id \<times> int) list \<Rightarrow> user_id \<Rightarrow> bool" where
  "no_rows rows u = list_all (\<lambda>(u', c). lower u' \<noteq> lower u) rows"

text \<open>
  The calls by which a keyword match shows: the read and the write of the store, the
  first request of \<open>mute\<close>, and the reply that carries a content.
\<close>

fun observable :: "action \<Rightarrow> bool" where
  "observable (DbSelect u) = True"
| "observable (DbUpsert u c) = True"
| "observable (GetStateEvent r) = True"
| "observable (Reply r e (Content c)) = True"
| "observable _ = False"

fun is_log :: "action \<Rightarrow> bool" where
  "is_log (LogDebug m) = True"
| "is_log (LogKeywords ks) = True"
| "is_log (LogException m) = True"
| "is_log _ = False"

fun is_mute_call :: "action \<Rightarrow> bool" where
  "is_mute_call (GetStateEvent r) = True"
| "is_mute_call _ = False"


text \<open>The configured keywords found in the message, in the configured order.\<close>

definition matches :: "bot \<Rightarrow> message_event \<Rightarrow> string list" where
  "matches b evt = filter (\<lambda>k. found b k evt) (config_keywords (config b))"

text \<open>
  The reply of lines 108 and 111, written out: in the template chosen, \<^verbatim>\<open>[keyword]\<close> is
  replaced by the keyword and then \<^verbatim>\<open>[count]\<close> by the count in decimal; that text is the
  body, and the formatted body is that text with \<^verbatim>\<open>[user]\<close> replaced by a link to the
  sender.
\<close>

definition rendered_reply :: "string \<Rightarrow> string \<Rightarrow> int \<Rightarrow> message_event \<Rightarrow> action" where
  "rendered_reply template keyword n evt =
     Reply (room_id evt) (event_id evt)
       (Content
          \<lparr>c_body = replace ''[count]'' (str n) (replace ''[keyword]'' keyword template),
           c_formatted_body =
             replace ''[user]'' (mention (sender evt))
               (replace ''[count]'' (str n) (replace ''[keyword]'' keyword template))\<rparr>)"

text \<open>
  The calls of one match that reads the count \<open>c\<close>: the read, the first request of
  \<open>mute\<close> when \<open>c\<close> is 2 modulo 3, the write of \<open>c mod 3 + 1\<close>, and the reply, from the
  mute message when \<open>c\<close> is 2 modulo 3 and from the warning message otherwise.
\<close>

definition match_reading :: "bot \<Rightarrow> message_event \<Rightarrow> string \<Rightarrow> int \<Rightarrow> action list" where
  "match_reading b evt k c =
     [DbSelect (sender evt)]
     @ (if c mod 3 = 2 then [GetStateEvent (room_id evt)] else [])
     @ [DbUpsert (sender evt) (c mod 3 + 1),
        rendered_reply (if c mod 3 = 2 then message_mute (config b)
                        else message_warning (config b)) k (c mod 3 + 1) evt]"

text \<open>
  One pass over the keywords on a table, when no call raises: the calls of every keyword
  found, in the configured order, each reading the table as the keywords before it left
  it; and the table the pass leaves.
\<close>

fun keyword_calls :: "bot \<Rightarrow> message_event \<Rightarrow> string list \<Rightarrow> (user_id \<times> int) list \<Rightarrow> action list" where
  "keyword_calls b evt [] rows = []"
| "keyword_calls b evt (k # ks) rows =
     (if found b k evt
      then match_reading b evt k (stored_count rows (sender evt))
           @ keyword_calls b evt ks
               (upsert rows (sender evt) (stored_count rows (sender evt) mod 3 + 1))
      else keyword_calls b evt ks rows)"

fun keyword_rows :: "bot \<Rightarrow> message_event \<Rightarrow> string list \<Rightarrow> (user_id \<times> int) list \<Rightarrow> (user_id \<times> int) list" where
  "keyword_rows b evt [] rows = rows"
| "keyword_rows b evt (k # ks) rows =
     (if found b k evt
      then keyword_rows b evt ks
             (upsert rows (sender evt) (stored_count rows (sender evt) mod 3 + 1))
      else keyword_rows b evt ks rows)"




text \<open>The event passes the test of line 89 and is scanned for keywords.\<close>

definition handled :: "bot \<Rightarrow> message_event \<Rightarrow> bool" where
  "handled b evt = (sender evt \<noteq> mxid b \<and> msgtype evt \<in> set allowed_msgtypes)"





section \<open>Scenarios\<close>

definition spam_config :: config where
  "spam_config =
     \<lparr>config_keywords = [''spam'', ''Scam''], notification_room = ''!mods:x'',
      message_warning = ''[user]: [keyword] ([count])'',
      message_mute = ''[user] muted: [keyword] ([count])'',
      message_report = ''[reporter] reported [user]'',
      message_notify = ''[reporter] reported [user] in [room]''\<rparr>"

text \<open>
  The texts of the scenarios are ASCII, on which \<^verbatim>\<open>str.lower\<close> lower-cases the ASCII
  letters, as \<open>lower\<close> does.
\<close>

definition the_bot :: bot where
  "the_bot = \<lparr>mxid = ''@bot:x'', config = spam_config, str_lower = lower\<rparr>"

definition room_levels :: power_levels where
  "room_levels =
     \<lparr>users = [''@bot:x'' \<mapsto> 100, ''@alice:x'' \<mapsto> 50], users_default = 0, events = Map.empty,
      events_default = 0, state_default = 50, invite = 0, kick = 50, ban = 50, redact = 50\<rparr>"

definition bob_spam :: message_event where
  "bob_spam =
     \<lparr>sender = ''@bob:x'', room_id = ''!r:x'', event_id = ''$1'', etype = ROOM_MESSAGE,
      msgtype = TEXT, body = ''this is SPAM'', relates_to_key = None, reply_to = None\<rparr>"

text \<open>A homeserver on which the bot may change power levels, and an empty table.\<close>

definition fresh_world :: world where
  "fresh_world =
     \<lparr>db = [], room_state = (\<lambda>r. Inr room_levels), send_state_error = (\<lambda>r. None),
      trace = []\<rparr>"

text \<open>A homeserver that refuses the bot's power-level change, and bob at two warnings.\<close>

definition forbidding_world :: world where
  "forbidding_world =
     \<lparr>db = [(''@bob:x'', 2)], room_state = (\<lambda>r. Inr room_levels),
      send_state_error = (\<lambda>r. Some (MForbidden ''no'')), trace = []\<rparr>"


text \<open>A message of the bot itself, one that is not text, and one without any keyword.\<close>

definition bot_spam :: message_event where
  "bot_spam = bob_spam\<lparr>sender := ''@bot:x''\<rparr>"

definition notice_spam :: message_event where
  "notice_spam = bob_spam\<lparr>msgtype := OtherMsgtype ''m.notice''\<rparr>"

definition bob_hello :: message_event where
  "bob_hello = bob_spam\<lparr>body := ''hello''\<rparr>"

definition bob_both :: message_event where
  "bob_both = bob_spam\<lparr>body := ''scam spam''\<rparr>"

text \<open>
  Carol's reaction with the report emoji to a message of bob: an event of type reaction,
  whose content has neither a message type nor a body.
\<close>

definition carol_reaction :: message_event where
  "carol_reaction =
     \<lparr>sender = ''@carol:x'', room_id = ''!r:x'', event_id = ''$2'', etype = REACTION,
      msgtype = OtherMsgtype [], body = [], relates_to_key = Some report_emoji,
      reply_to = None\<rparr>"

section \<open>The trace and the store\<close>

lemma emit_fields [simp]:
  "db (emit a w) = db w"
  "room_state (emit a w) = room_state w"
  "send_state_error (emit a w) = send_state_error w"
  "trace (emit a w) = trace w @ [a]"
  by (simp_all add: emit_def)

lemma emitted_refl [simp]: "emitted w w = []"
  by (simp add: emitted_def)

lemma emitted_app: "trace w' = trace w @ xs \<Longrightarrow> emitted w w' = xs"
  by (simp add: emitted_def)

lemma emitted_trans:
  assumes "prefix (trace w) (trace w')" and "prefix (trace w') (trace w'')"
  shows "emitted w w'' = emitted w w' @ emitted w' w''"
proof -
  from assms obtain xs ys where "trace w' = trace w @ xs" "trace w'' = trace w' @ ys"
    by (auto simp: prefix_def)
  then show ?thesis by (simp add: emitted_def)
qed

lemma mute_returns_cong:
  "room_state w' = room_state w \<Longrightarrow> send_state_error w' = send_state_error w \<Longrightarrow>
     mute_returns w' r = mute_returns w r"
  by (simp add: mute_returns_def split: sum.splits)

lemma mute_returns_emit [simp]: "mute_returns (emit a w) r = mute_returns w r"
  by (rule mute_returns_cong) simp_all

lemma gwc_fst: "fst (get_warning_count u w) = stored_count (db w) u"
  by (simp add: get_warning_count_def stored_count_def Let_def split: option.splits)

lemma gwc_snd:
  "snd (get_warning_count u w) =
     emit (LogDebug (''Warning count for user: '' @ u @ '' is: '' @ str_opt (fetchval (db w) u)))
       (emit (DbSelect u) w)"
  by (simp add: get_warning_count_def Let_def split: option.splits)

lemma swc_fields [simp]:
  "db (set_warning_count u c w) = upsert (db w) u c"
  "room_state (set_warning_count u c w) = room_state w"
  "send_state_error (set_warning_count u c w) = send_state_error w"
  "trace (set_warning_count u c w) =
     trace w @ [LogDebug (''set warning counter for '' @ u @ '' to '' @ str c), DbUpsert u c]"
  by (simp_all add: set_warning_count_def Let_def)

lemma mute_except_summary:
  "\<exists>xs. trace (final (mute_except evt e w)) = trace w @ xs \<and> filter observable xs = []
      \<and> \<not> list_ex is_mute_call xs
      \<and> db (final (mute_except evt e w)) = db w
      \<and> (\<forall>r. mute_returns (final (mute_except evt e w)) r = mute_returns w r)
      \<and> (raised (mute_except evt e w) = None \<longleftrightarrow> caught e)"
  by (cases e) (simp_all add: mute_except_def caught_def)

lemma mute_summary:
  "\<exists>xs. trace (final (mute evt w)) = trace w @ GetStateEvent (room_id evt) # xs
      \<and> filter observable xs = [] \<and> \<not> list_ex is_mute_call xs
      \<and> db (final (mute evt w)) = db w
      \<and> (\<forall>r. mute_returns (final (mute evt w)) r = mute_returns w r)
      \<and> (raised (mute evt w) = None \<longleftrightarrow> mute_returns w (room_id evt))"
proof (cases "room_state w (room_id evt)")
  case (Inl e)
  let ?w1 = "emit (GetStateEvent (room_id evt)) w"
  have "mute_returns w (room_id evt) = caught e"
    using Inl by (simp add: mute_returns_def)
  with mute_except_summary[of evt e ?w1] Inl show ?thesis
    by (auto simp: mute_def)
next
  case (Inr levels)
  let ?lv = "levels\<lparr>users := (users levels)(sender evt \<mapsto> - 1)\<rparr>"
  let ?w2 = "emit (SendStateEvent (room_id evt) ?lv) (emit (GetStateEvent (room_id evt)) w)"
  show ?thesis
  proof (cases "send_state_error w (room_id evt)")
    case None
    have "mute_returns (?w2\<lparr>room_state := (room_state ?w2)(room_id evt := Inr ?lv)\<rparr>) r = mute_returns w r" for r
      using Inr None by (simp add: mute_returns_def split: sum.splits)
    moreover have "mute_returns w (room_id evt)"
      using Inr None by (simp add: mute_returns_def)
    ultimately show ?thesis using Inr None by (simp add: mute_def Let_def)
  next
    case (Some e)
    have "mute_returns w (room_id evt) = caught e"
      using Inr Some by (simp add: mute_returns_def)
    with mute_except_summary[of evt e ?w2] Inr Some show ?thesis
      by (auto simp: mute_def Let_def)
  qed
qed

lemma observable_rendered_reply [simp]: "observable (rendered_reply t k n evt)"
  by (simp add: rendered_reply_def)

lemma is_mute_call_rendered_reply [simp]: "\<not> is_mute_call (rendered_reply t k n evt)"
  by (simp add: rendered_reply_def)

lemma reply_rendered:
  "Reply (room_id evt) (event_id evt)
     (Content (prettify_usernames (replace ''[count]'' (str n) (replace ''[keyword]'' k t))
                 (sender evt) (event_id evt) None))
   = rendered_reply t k n evt"
  by (simp add: rendered_reply_def prettify_usernames_def Let_def)

lemma on_match_unfold:
  "on_match b evt k w =
     (let w2 = snd (get_warning_count (sender evt) (emit (LogDebug ''keyword found'') w));
          m = stored_count (db w) (sender evt) mod 3
      in case (if m > 1 then mute evt w2 else Inr w2) of
           Inl x \<Rightarrow> Inl x
         | Inr w3 \<Rightarrow>
             Inr (emit (rendered_reply (if m > 1 then message_mute (config b)
                                        else message_warning (config b)) k (m + 1) evt)
                    (emit (LogDebug ''send reply'') (set_warning_count (sender evt) (m + 1) w3))))"
  by (simp add: on_match_def Let_def case_prod_beta gwc_fst reply_rendered split: sum.splits)

lemma mute_returns_swc [simp]: "mute_returns (set_warning_count u c w) r = mute_returns w r"
  by (rule mute_returns_cong) simp_all

lemma mod3_gt1: "((c::int) mod 3 > 1) = (c mod 3 = 2)"
  by presburger

lemma on_match_summary:
  fixes b evt k w
  defines "s \<equiv> sender evt"
  defines "c \<equiv> stored_count (db w) (sender evt)"
  defines "res \<equiv> on_match b evt k w"
  shows "\<exists>xs. trace (final res) = trace w @ xs
     \<and> (raised res = None \<longleftrightarrow> c mod 3 \<noteq> 2 \<or> mute_returns w (room_id evt))
     \<and> filter observable xs =
         [DbSelect s] @ (if c mod 3 = 2 then [GetStateEvent (room_id evt)] else [])
         @ (if raised res = None
            then [DbUpsert s (c mod 3 + 1),
                  rendered_reply (if c mod 3 = 2 then message_mute (config b)
                                 else message_warning (config b)) k (c mod 3 + 1) evt]
            else [])
     \<and> (list_ex is_mute_call xs \<longleftrightarrow> c mod 3 = 2)
     \<and> db (final res) = (if raised res = None then upsert (db w) s (c mod 3 + 1) else db w)
     \<and> (\<forall>r. mute_returns (final res) r = mute_returns w r)"
proof (cases "c mod 3 = 2")
  case False
  then have "res = Inr (emit (rendered_reply (message_warning (config b)) k (c mod 3 + 1) evt)
                    (emit (LogDebug ''send reply'') (set_warning_count (sender evt) (c mod 3 + 1)
                       (snd (get_warning_count (sender evt) (emit (LogDebug ''keyword found'') w))))))"
    unfolding res_def c_def by (simp add: on_match_unfold Let_def mod3_gt1)
  with False show ?thesis
    by (simp add: gwc_snd s_def)
next
  case True
  let ?w2 = "snd (get_warning_count (sender evt) (emit (LogDebug ''keyword found'') w))"
  have w2: "trace ?w2 = trace w @ [LogDebug ''keyword found'', DbSelect s,
        LogDebug (''Warning count for user: '' @ s @ '' is: '' @ str_opt (fetchval (db w) s))]"
    "db ?w2 = db w" "\<And>r. mute_returns ?w2 r = mute_returns w r"
    by (simp_all add: gwc_snd s_def)
  from mute_summary[of evt ?w2] obtain ys where
      "trace (final (mute evt ?w2)) = trace ?w2 @ GetStateEvent (room_id evt) # ys
      \<and> filter observable ys = [] \<and> \<not> list_ex is_mute_call ys
      \<and> db (final (mute evt ?w2)) = db ?w2
      \<and> (\<forall>r. mute_returns (final (mute evt ?w2)) r = mute_returns ?w2 r)
      \<and> (raised (mute evt ?w2) = None \<longleftrightarrow> mute_returns ?w2 (room_id evt))" ..
  then have ys: "trace (final (mute evt ?w2)) = trace ?w2 @ GetStateEvent (room_id evt) # ys"
      "filter observable ys = []" "\<not> list_ex is_mute_call ys"
      "db (final (mute evt ?w2)) = db ?w2"
      "\<And>r. mute_returns (final (mute evt ?w2)) r = mute_returns ?w2 r"
      "raised (mute evt ?w2) = None \<longleftrightarrow> mute_returns ?w2 (room_id evt)"
    by blast+
  show ?thesis
  proof (cases "mute evt ?w2")
    case (Inl x)
    then have r: "res = Inl x"
      unfolding res_def c_def using True by (simp add: on_match_unfold Let_def c_def)
    obtain e w' where x: "x = (e, w')" by (cases x)
    from Inl x ys w2 True show ?thesis
      unfolding r by (simp add: x)
  next
    case (Inr w3)
    then have r: "res = Inr (emit (rendered_reply (message_mute (config b)) k (c mod 3 + 1) evt)
                    (emit (LogDebug ''send reply'') (set_warning_count (sender evt) (c mod 3 + 1) w3)))"
      unfolding res_def using True by (simp add: on_match_unfold Let_def c_def)
    from Inr ys w2 True show ?thesis
      unfolding r by (simp add: s_def)
  qed
qed











section \<open>The keyword loop\<close>

lemma keyword_loop_quiet:
  "\<forall>k\<in>set ks. \<not> found b k evt \<Longrightarrow>
     \<exists>w'. keyword_loop b evt ks w = Inr w' \<and> db w' = db w \<and> room_state w' = room_state w
       \<and> trace w' = trace w @ map (\<lambda>k. LogDebug (''no '' @ k @ '' in message '' @ body evt)) ks"
proof (induction ks arbitrary: w)
  case Nil
  then show ?case by simp
next
  case (Cons k ks)
  let ?w1 = "emit (LogDebug (''no '' @ k @ '' in message '' @ body evt)) w"
  from Cons.prems have "\<forall>k\<in>set ks. \<not> found b k evt" and nf: "\<not> found b k evt" by simp_all
  from Cons.IH[OF this(1), of ?w1] obtain w' where
    "keyword_loop b evt ks ?w1 = Inr w'" "db w' = db ?w1" "room_state w' = room_state ?w1"
    "trace w' = trace ?w1 @ map (\<lambda>k. LogDebug (''no '' @ k @ '' in message '' @ body evt)) ks"
    by blast
  with nf show ?case by simp
qed

lemma handler_unfold:
  "sender evt \<noteq> mxid b \<Longrightarrow> msgtype evt \<in> set allowed_msgtypes \<Longrightarrow>
     event_handler b evt w =
       keyword_loop b evt (config_keywords (config b)) (emit (LogKeywords (config_keywords (config b))) w)"
  by (simp add: event_handler_def dropped_coroutine_def Let_def)

lemma observable_mem_filter: "a \<in> set xs \<Longrightarrow> observable a \<Longrightarrow> a \<in> set (filter observable xs)"
  by simp

lemma on_match_upserts:
  "\<exists>xs. trace (final (on_match b evt k w)) = trace w @ xs
      \<and> (\<forall>u c. DbUpsert u c \<in> set xs \<longrightarrow> u = sender evt \<and> c \<in> {1, 2, 3})"
proof -
  let ?c = "stored_count (db w) (sender evt)"
  from on_match_summary[of b evt k w] obtain xs where
    t: "trace (final (on_match b evt k w)) = trace w @ xs" and
    f: "filter observable xs =
         [DbSelect (sender evt)] @ (if ?c mod 3 = 2 then [GetStateEvent (room_id evt)] else [])
         @ (if raised (on_match b evt k w) = None
            then [DbUpsert (sender evt) (?c mod 3 + 1),
                  rendered_reply (if ?c mod 3 = 2 then message_mute (config b)
                                 else message_warning (config b)) k (?c mod 3 + 1) evt]
            else [])"
    by blast
  have rng: "?c mod 3 + 1 \<in> {1, 2, 3}"
  proof -
    have "0 \<le> ?c mod 3" "?c mod 3 < 3" by simp_all
    then show ?thesis by auto
  qed
  have "u = sender evt \<and> c \<in> {1, 2, 3}" if "DbUpsert u c \<in> set xs" for u c
  proof -
    from that have "DbUpsert u c \<in> set (filter observable xs)" by simp
    with rng show ?thesis unfolding f
      by (auto simp: rendered_reply_def split: if_splits)
  qed
  with t show ?thesis by blast
qed

lemma keyword_loop_upserts:
  "\<exists>xs. trace (final (keyword_loop b evt ks w)) = trace w @ xs
      \<and> (\<forall>u c. DbUpsert u c \<in> set xs \<longrightarrow> u = sender evt \<and> c \<in> {1, 2, 3})"
proof (induction ks arbitrary: w)
  case Nil
  then show ?case by simp
next
  case (Cons k ks)
  show ?case
  proof (cases "found b k evt")
    case False
    let ?w1 = "emit (LogDebug (''no '' @ k @ '' in message '' @ body evt)) w"
    from Cons.IH[of ?w1] obtain xs where
      "trace (final (keyword_loop b evt ks ?w1)) = trace ?w1 @ xs"
      "\<forall>u c. DbUpsert u c \<in> set xs \<longrightarrow> u = sender evt \<and> c \<in> {1, 2, 3}" by blast
    with False show ?thesis
      by (intro exI[of _ "LogDebug (''no '' @ k @ '' in message '' @ body evt) # xs"]) simp
  next
    case True
    from on_match_upserts[of b evt k w] obtain xs where
      xs: "trace (final (on_match b evt k w)) = trace w @ xs"
      "\<forall>u c. DbUpsert u c \<in> set xs \<longrightarrow> u = sender evt \<and> c \<in> {1, 2, 3}" by blast
    show ?thesis
    proof (cases "on_match b evt k w")
      case (Inl x)
      with True xs show ?thesis by (intro exI[of _ xs]) simp
    next
      case (Inr w')
      from Cons.IH[of w'] obtain ys where
        "trace (final (keyword_loop b evt ks w')) = trace w' @ ys"
        "\<forall>u c. DbUpsert u c \<in> set ys \<longrightarrow> u = sender evt \<and> c \<in> {1, 2, 3}" by blast
      with Inr True xs show ?thesis by (intro exI[of _ "xs @ ys"]) auto
    qed
  qed
qed





lemma keyword_loop_returns:
  assumes "mute_returns w (room_id evt)"
  shows "\<exists>xs. trace (final (keyword_loop b evt ks w)) = trace w @ xs
      \<and> raised (keyword_loop b evt ks w) = None
      \<and> filter observable xs = keyword_calls b evt ks (db w)
      \<and> db (final (keyword_loop b evt ks w)) = keyword_rows b evt ks (db w)
      \<and> (\<forall>r. mute_returns (final (keyword_loop b evt ks w)) r = mute_returns w r)"
  using assms
proof (induction ks arbitrary: w)
  case Nil
  then show ?case by simp
next
  case (Cons k ks)
  let ?s = "sender evt"
  let ?c = "stored_count (db w) ?s"
  show ?case
  proof (cases "found b k evt")
    case False
    let ?a = "LogDebug (''no '' @ k @ '' in message '' @ body evt)"
    let ?w1 = "emit ?a w"
    have "mute_returns ?w1 (room_id evt)"
      using Cons.prems by simp
    from Cons.IH[OF this] obtain xs where
      xs: "trace (final (keyword_loop b evt ks ?w1)) = trace ?w1 @ xs"
        "raised (keyword_loop b evt ks ?w1) = None"
        "filter observable xs = keyword_calls b evt ks (db ?w1)"
        "db (final (keyword_loop b evt ks ?w1)) = keyword_rows b evt ks (db ?w1)"
        "\<forall>r. mute_returns (final (keyword_loop b evt ks ?w1)) r = mute_returns ?w1 r"
      by blast
    with False show ?thesis
      by (intro exI[of _ "?a # xs"]) simp
  next
    case True
    let ?n = "?c mod 3 + 1"
    let ?t = "if ?c mod 3 = 2 then message_mute (config b) else message_warning (config b)"
    from on_match_summary[of b evt k w] obtain xs where
      "trace (final (on_match b evt k w)) = trace w @ xs
       \<and> (raised (on_match b evt k w) = None \<longleftrightarrow> ?c mod 3 \<noteq> 2 \<or> mute_returns w (room_id evt))
       \<and> filter observable xs =
           [DbSelect ?s] @ (if ?c mod 3 = 2 then [GetStateEvent (room_id evt)] else [])
           @ (if raised (on_match b evt k w) = None
              then [DbUpsert ?s ?n, rendered_reply ?t k ?n evt] else [])
       \<and> (list_ex is_mute_call xs \<longleftrightarrow> ?c mod 3 = 2)
       \<and> db (final (on_match b evt k w))
           = (if raised (on_match b evt k w) = None then upsert (db w) ?s ?n else db w)
       \<and> (\<forall>r. mute_returns (final (on_match b evt k w)) r = mute_returns w r)" ..
    then have xs: "trace (final (on_match b evt k w)) = trace w @ xs"
      and rs: "raised (on_match b evt k w) = None \<longleftrightarrow> ?c mod 3 \<noteq> 2 \<or> mute_returns w (room_id evt)"
      and fl: "filter observable xs =
           [DbSelect ?s] @ (if ?c mod 3 = 2 then [GetStateEvent (room_id evt)] else [])
           @ (if raised (on_match b evt k w) = None
              then [DbUpsert ?s ?n, rendered_reply ?t k ?n evt] else [])"
      and dbf: "db (final (on_match b evt k w))
           = (if raised (on_match b evt k w) = None then upsert (db w) ?s ?n else db w)"
      and mr: "\<forall>r. mute_returns (final (on_match b evt k w)) r = mute_returns w r"
      by blast+
    from rs Cons.prems have ok: "raised (on_match b evt k w) = None" by simp
    then obtain w' where w': "on_match b evt k w = Inr w'"
      by (cases "on_match b evt k w") auto
    from xs fl dbf mr ok have
      tw: "trace w' = trace w @ xs" and
      fw: "filter observable xs = match_reading b evt k ?c" and
      dw: "db w' = upsert (db w) ?s ?n" and
      mw: "\<forall>r. mute_returns w' r = mute_returns w r"
      by (simp_all add: w' match_reading_def)
    from mw Cons.prems have m': "mute_returns w' (room_id evt)" by simp
    from Cons.IH[OF m'] obtain ys where
      ys: "trace (final (keyword_loop b evt ks w')) = trace w' @ ys"
        "raised (keyword_loop b evt ks w') = None"
        "filter observable ys = keyword_calls b evt ks (db w')"
        "db (final (keyword_loop b evt ks w')) = keyword_rows b evt ks (db w')"
        "\<forall>r. mute_returns (final (keyword_loop b evt ks w')) r = mute_returns w' r"
      by blast
    have kl: "keyword_loop b evt (k # ks) w = keyword_loop b evt ks w'"
      using True w' by simp
    have sp: "keyword_calls b evt (k # ks) (db w)
          = match_reading b evt k ?c @ keyword_calls b evt ks (upsert (db w) ?s ?n)"
         "keyword_rows b evt (k # ks) (db w) = keyword_rows b evt ks (upsert (db w) ?s ?n)"
      using True by simp_all
    show ?thesis
      unfolding kl sp
      using ys tw fw mw
      by (intro exI[of _ "xs @ ys"]) (simp add: dw)
  qed
qed







lemma mute_call_observable: "is_mute_call a \<Longrightarrow> observable a"
  by (cases a) simp_all

lemma list_ex_mute_filter: "list_ex is_mute_call (filter observable xs) = list_ex is_mute_call xs"
  by (induction xs) (auto dest: mute_call_observable)

lemma handler_returns:
  assumes "handled b evt" and "mute_returns w (room_id evt)"
  shows "\<exists>xs. trace (final (event_handler b evt w)) = trace w @ xs
      \<and> raised (event_handler b evt w) = None
      \<and> filter observable xs = keyword_calls b evt (config_keywords (config b)) (db w)
      \<and> db (final (event_handler b evt w)) = keyword_rows b evt (config_keywords (config b)) (db w)
      \<and> (\<forall>r. mute_returns (final (event_handler b evt w)) r = mute_returns w r)"
proof -
  let ?ks = "config_keywords (config b)"
  let ?w1 = "emit (LogKeywords ?ks) w"
  have eh: "event_handler b evt w = keyword_loop b evt ?ks ?w1"
    using assms(1) by (simp add: handled_def handler_unfold)
  have "mute_returns ?w1 (room_id evt)"
    using assms by simp
  from keyword_loop_returns[OF this, of b ?ks] obtain xs where
    "trace (final (keyword_loop b evt ?ks ?w1)) = trace ?w1 @ xs"
    "raised (keyword_loop b evt ?ks ?w1) = None"
    "filter observable xs = keyword_calls b evt ?ks (db ?w1)"
    "db (final (keyword_loop b evt ?ks ?w1)) = keyword_rows b evt ?ks (db ?w1)"
    "\<forall>r. mute_returns (final (keyword_loop b evt ?ks ?w1)) r = mute_returns ?w1 r"
    by blast
  then show ?thesis
    unfolding eh by (intro exI[of _ "LogKeywords ?ks # xs"]) simp
qed

lemma enumerate_map_Pair:
  "enumerate n (map f xs) = map (\<lambda>(i, x). (i, f x)) (enumerate n xs)"
  by (induction xs arbitrary: n) simp_all





section \<open>Facts of the scenarios\<close>

lemma lower_simps [simp]:
  "lower [] = []" "lower (c # cs) = lower_char c # lower cs"
  by (simp_all add: lower_def)

lemma bob_facts:
  "sender bob_spam = ''@bob:x''" "handled the_bot bob_spam" "room_id bob_spam = ''!r:x''"
  "matches the_bot bob_spam = [''spam'']"
  by (simp_all add: matches_def the_bot_def spam_config_def found_def bob_spam_def lower_char_def
      handled_def allowed_msgtypes_def)

lemma both_facts:
  "sender bob_both = ''@bob:x''" "handled the_bot bob_both" "room_id bob_both = ''!r:x''"
  "found the_bot ''spam'' bob_both" "found the_bot ''Scam'' bob_both"
  "matches the_bot bob_both = [''spam'', ''Scam'']"
  "config_keywords (config the_bot) = [''spam'', ''Scam'']"
  by (simp_all add: matches_def the_bot_def spam_config_def found_def bob_both_def bob_spam_def
      lower_char_def handled_def allowed_msgtypes_def)

lemma fresh_facts:
  "no_rows (db fresh_world) u" "mute_returns fresh_world r" "db fresh_world = []"
  by (simp_all add: fresh_world_def no_rows_def mute_returns_def)


lemma bob_rows:
  "stored_count [] ''@bob:x'' = 0"
  "stored_count [(''@bob:x'', 1)] ''@bob:x'' = 1"
  "stored_count [(''@bob:x'', 2)] ''@bob:x'' = 2"
  "upsert [] ''@bob:x'' c = [(''@bob:x'', c)]"
  "upsert [(''@bob:x'', c')] ''@bob:x'' c = [(''@bob:x'', c)]"
  by (simp_all add: stored_count_def fetchval_def upsert_def)



section \<open>The warning count over a sequence of matches\<close>




section \<open>The matches on which the sender is muted\<close>







section \<open>What one event changes\<close>

lemma ignored_unfold:
  "\<not> handled b evt \<Longrightarrow> event_handler b evt w = Inr (emit (LogDebug ''message ignored'') w)"
  by (auto simp: handled_def event_handler_def)

lemma handler_upserts:
  "\<exists>xs. trace (final (event_handler b evt w)) = trace w @ xs
      \<and> (\<forall>u c. DbUpsert u c \<in> set xs \<longrightarrow> u = sender evt \<and> c \<in> {1, 2, 3})"
proof (cases "handled b evt")
  case False
  then show ?thesis
    by (intro exI[of _ "[LogDebug ''message ignored'']"]) (simp add: ignored_unfold)
next
  case True
  let ?ks = "config_keywords (config b)"
  let ?w1 = "emit (LogKeywords ?ks) w"
  have eh: "event_handler b evt w = keyword_loop b evt ?ks ?w1"
    using True by (simp add: handled_def handler_unfold)
  from keyword_loop_upserts[of b evt ?ks ?w1] obtain xs where
    "trace (final (keyword_loop b evt ?ks ?w1)) = trace ?w1 @ xs"
    "\<forall>u c. DbUpsert u c \<in> set xs \<longrightarrow> u = sender evt \<and> c \<in> {1, 2, 3}" by blast
  then show ?thesis unfolding eh
    by (intro exI[of _ "LogKeywords ?ks # xs"]) simp
qed

lemma on_match_upsert_value:
  assumes "DbUpsert u c \<in> set (emitted w (final (on_match b evt k w)))"
  shows "u = sender evt \<and> c = stored_count (db w) (sender evt) mod 3 + 1"
proof -
  let ?c = "stored_count (db w) (sender evt)"
  from on_match_summary[of b evt k w] obtain xs where
    t: "trace (final (on_match b evt k w)) = trace w @ xs" and
    f: "filter observable xs =
         [DbSelect (sender evt)] @ (if ?c mod 3 = 2 then [GetStateEvent (room_id evt)] else [])
         @ (if raised (on_match b evt k w) = None
            then [DbUpsert (sender evt) (?c mod 3 + 1),
                  rendered_reply (if ?c mod 3 = 2 then message_mute (config b)
                                 else message_warning (config b)) k (?c mod 3 + 1) evt]
            else [])"
    by blast
  from assms t have "DbUpsert u c \<in> set xs" by (simp add: emitted_def)
  then have "DbUpsert u c \<in> set (filter observable xs)" by simp
  then show ?thesis unfolding f
    by (auto simp: rendered_reply_def split: if_splits)
qed

text \<open>
  Claim C7.  Every write of the store made while an event is handled is for the sender
  of the event and stores 1, 2 or 3; and the write made by the body of the loop stores
  the count it read, taken modulo 3, plus 1.
\<close>
theorem stored_counts_in_range:
  "(DbUpsert u c \<in> set (emitted w (final (event_handler b evt w)))
      \<longrightarrow> u = sender evt \<and> c \<in> {1, 2, 3})
   \<and> (DbUpsert u c \<in> set (emitted w (final (on_match b evt k w)))
      \<longrightarrow> u = sender evt \<and> c = fst (get_warning_count (sender evt) w) mod 3 + 1)"
proof -
  from handler_upserts[of b evt w] obtain xs where
    "trace (final (event_handler b evt w)) = trace w @ xs"
    "\<forall>u c. DbUpsert u c \<in> set xs \<longrightarrow> u = sender evt \<and> c \<in> {1, 2, 3}" by blast
  then have "DbUpsert u c \<in> set (emitted w (final (event_handler b evt w)))
      \<longrightarrow> u = sender evt \<and> c \<in> {1, 2, 3}"
    by (simp add: emitted_def)
  moreover have "DbUpsert u c \<in> set (emitted w (final (on_match b evt k w)))
      \<longrightarrow> u = sender evt \<and> c = fst (get_warning_count (sender evt) w) mod 3 + 1"
    using on_match_upsert_value[of u c w b evt k] by (auto simp: gwc_fst)
  ultimately show ?thesis by blast
qed

text \<open>
  Claim C8.  When no configured keyword is found in the body of the message (in
  particular when no keyword is configured), handling the event returns, leaves the
  table and the power levels as they were, and calls nothing but the logger: no read or
  write of the store and no reply.
\<close>
theorem no_keyword_no_effect:
  assumes "\<forall>k\<in>set (config_keywords (config b)). \<not> found b k evt"
  shows "\<exists>w'. event_handler b evt w = Inr w' \<and> db w' = db w \<and> room_state w' = room_state w
           \<and> list_all is_log (emitted w w')"
proof (cases "handled b evt")
  case False
  then show ?thesis by (simp add: ignored_unfold emitted_def)
next
  case True
  let ?ks = "config_keywords (config b)"
  let ?w1 = "emit (LogKeywords ?ks) w"
  have eh: "event_handler b evt w = keyword_loop b evt ?ks ?w1"
    using True by (simp add: handled_def handler_unfold)
  from keyword_loop_quiet[OF assms, of ?w1] obtain w' where
    "keyword_loop b evt ?ks ?w1 = Inr w'" "db w' = db ?w1" "room_state w' = room_state ?w1"
    "trace w' = trace ?w1 @ map (\<lambda>k. LogDebug (''no '' @ k @ '' in message '' @ body evt)) ?ks"
    by blast
  then show ?thesis unfolding eh
    by (simp add: emitted_def list_all_iff)
qed

text \<open>
  Claim C9.  An event sent by the bot itself, or whose message type is neither text nor
  emote, is not scanned: the handler returns, the table and the power levels are as they
  were, and its one call is the log line of line 90, whatever the body contains.
\<close>
theorem ignored_event:
  assumes "sender evt = mxid b \<or> msgtype evt \<notin> set allowed_msgtypes"
  shows "\<exists>w'. event_handler b evt w = Inr w' \<and> db w' = db w \<and> room_state w' = room_state w
           \<and> emitted w w' = [LogDebug ''message ignored'']"
  using assms by (auto simp: event_handler_def emitted_def)

lemma hello_facts:
  "handled the_bot bob_hello" "\<forall>k\<in>set (config_keywords (config the_bot)). \<not> found the_bot k bob_hello"
  by (simp_all add: the_bot_def spam_config_def found_def bob_hello_def bob_spam_def lower_char_def
      handled_def allowed_msgtypes_def)

theorem no_keyword_no_effect_witness:
  "handled the_bot bob_hello
   \<and> list_all (\<lambda>k. \<not> found the_bot k bob_hello) (config_keywords (config the_bot))
   \<and> (\<exists>w'. event_handler the_bot bob_hello fresh_world = Inr w' \<and> db w' = db fresh_world
           \<and> room_state w' = room_state fresh_world \<and> list_all is_log (emitted fresh_world w'))"
  using no_keyword_no_effect[OF hello_facts(2), of fresh_world] hello_facts
  by (simp add: list_all_iff)

lemma ignored_facts:
  "sender bot_spam = mxid the_bot" "msgtype bot_spam \<in> set allowed_msgtypes"
  "found the_bot ''spam'' bot_spam"
  "sender notice_spam \<noteq> mxid the_bot" "msgtype notice_spam \<notin> set allowed_msgtypes"
  "found the_bot ''spam'' notice_spam"
  by (simp_all add: the_bot_def spam_config_def found_def bot_spam_def notice_spam_def bob_spam_def
      lower_char_def allowed_msgtypes_def)

theorem ignored_event_witness:
  "sender bot_spam = mxid the_bot \<and> found the_bot ''spam'' bot_spam
   \<and> (\<exists>w'. event_handler the_bot bot_spam fresh_world = Inr w' \<and> db w' = db fresh_world
           \<and> room_state w' = room_state fresh_world
           \<and> emitted fresh_world w' = [LogDebug ''message ignored''])
   \<and> msgtype notice_spam \<notin> set allowed_msgtypes \<and> found the_bot ''spam'' notice_spam
   \<and> (\<exists>w'. event_handler the_bot notice_spam fresh_world = Inr w' \<and> db w' = db fresh_world
           \<and> room_state w' = room_state fresh_world
           \<and> emitted fresh_world w' = [LogDebug ''message ignored''])"
  using ignored_event[OF disjI1[OF ignored_facts(1)], of fresh_world]
    ignored_event[OF disjI2[OF ignored_facts(5)], of the_bot fresh_world] ignored_facts
  by blast

theorem stored_counts_in_range_witness:
  "DbUpsert ''@bob:x'' 2 \<in> set (emitted fresh_world (final (event_handler the_bot bob_both fresh_world)))
   \<and> ''@bob:x'' = sender bob_both \<and> (2::int) \<in> {1, 2, 3}"
proof -
  from handler_returns[OF both_facts(2) fresh_facts(2)] obtain xs where
    xs: "trace (final (event_handler the_bot bob_both fresh_world)) = trace fresh_world @ xs"
      "filter observable xs
         = keyword_calls the_bot bob_both (config_keywords (config the_bot)) (db fresh_world)"
    by blast
  have "DbUpsert ''@bob:x'' 2 \<in> set (filter observable xs)"
    unfolding xs(2) by (simp add: both_facts fresh_facts(3) match_reading_def bob_rows)
  with xs(1) have m: "DbUpsert ''@bob:x'' 2
      \<in> set (emitted fresh_world (final (event_handler the_bot bob_both fresh_world)))"
    by (simp add: emitted_def)
  from conjunct1[OF stored_counts_in_range[of "''@bob:x''" 2 fresh_world the_bot bob_both]] m
  show ?thesis by blast
qed




section \<open>Muting\<close>

lemma mute_except_no_send:
  "\<exists>xs. trace (final (mute_except evt e w)) = trace w @ xs
      \<and> (\<forall>a\<in>set xs. \<forall>rm lv. a \<noteq> SendStateEvent rm lv)"
  by (cases e) (simp_all add: mute_except_def)

text \<open>
  Claim C10.  Whatever \<open>mute\<close> sends as the new power levels of a room is the content it
  retrieved for the room of the event, with the entry of the sender of the event set to
  -1: the entries of all other users, and all other fields, are those retrieved.
\<close>
theorem mute_frame:
  assumes "SendStateEvent r lv \<in> set (emitted w (final (mute evt w)))"
  shows "\<exists>levels. room_state w (room_id evt) = Inr levels \<and> r = room_id evt
           \<and> users lv (sender evt) = Some (- 1)
           \<and> (\<forall>u. u \<noteq> sender evt \<longrightarrow> users lv u = users levels u)
           \<and> lv\<lparr>users := users levels\<rparr> = levels"
proof (cases "room_state w (room_id evt)")
  case (Inl e)
  let ?w1 = "emit (GetStateEvent (room_id evt)) w"
  from mute_except_no_send[of evt e ?w1] obtain xs where
    "trace (final (mute_except evt e ?w1)) = trace ?w1 @ xs"
    "\<forall>a\<in>set xs. \<forall>rm lv. a \<noteq> SendStateEvent rm lv" by blast
  with Inl assms show ?thesis
    by (auto simp: mute_def emitted_def)
next
  case (Inr levels)
  let ?lv = "levels\<lparr>users := (users levels)(sender evt \<mapsto> - 1)\<rparr>"
  let ?w2 = "emit (SendStateEvent (room_id evt) ?lv) (emit (GetStateEvent (room_id evt)) w)"
  have "\<exists>xs. trace (final (mute evt w)) = trace ?w2 @ xs
          \<and> (\<forall>a\<in>set xs. \<forall>rm lv. a \<noteq> SendStateEvent rm lv)"
  proof (cases "send_state_error w (room_id evt)")
    case None
    with Inr show ?thesis by (simp add: mute_def Let_def)
  next
    case (Some e)
    with Inr show ?thesis using mute_except_no_send[of evt e ?w2]
      by (simp add: mute_def Let_def)
  qed
  then obtain xs where "trace (final (mute evt w)) = trace ?w2 @ xs"
     and "\<forall>a\<in>set xs. \<forall>rm lv. a \<noteq> SendStateEvent rm lv" by blast
  with assms have "r = room_id evt \<and> lv = ?lv"
    by (auto simp: emitted_def)
  with Inr show ?thesis by simp
qed

lemma mute_bob:
  "mute bob_spam fresh_world =
     Inr (fresh_world
           \<lparr>room_state := (room_state fresh_world)
              (''!r:x'' := Inr (room_levels\<lparr>users := (users room_levels)(''@bob:x'' \<mapsto> - 1)\<rparr>)),
            trace := [GetStateEvent ''!r:x'',
                      SendStateEvent ''!r:x''
                        (room_levels\<lparr>users := (users room_levels)(''@bob:x'' \<mapsto> - 1)\<rparr>)]\<rparr>)"
  by (simp add: mute_def Let_def fresh_world_def bob_spam_def emit_def)

theorem mute_frame_witness:
  "SendStateEvent ''!r:x'' (room_levels\<lparr>users := (users room_levels)(''@bob:x'' \<mapsto> - 1)\<rparr>)
     \<in> set (emitted fresh_world (final (mute bob_spam fresh_world)))
   \<and> room_state fresh_world (room_id bob_spam) = Inr room_levels
   \<and> users (room_levels\<lparr>users := (users room_levels)(''@bob:x'' \<mapsto> - 1)\<rparr>) (sender bob_spam) = Some (- 1)
   \<and> users (room_levels\<lparr>users := (users room_levels)(''@bob:x'' \<mapsto> - 1)\<rparr>) ''@alice:x''
       = users room_levels ''@alice:x''
   \<and> users room_levels ''@alice:x'' = Some 50"
proof -
  have m: "SendStateEvent ''!r:x'' (room_levels\<lparr>users := (users room_levels)(''@bob:x'' \<mapsto> - 1)\<rparr>)
     \<in> set (emitted fresh_world (final (mute bob_spam fresh_world)))"
    by (simp add: mute_bob emitted_def) (simp add: fresh_world_def)
  have r: "room_state fresh_world (room_id bob_spam) = Inr room_levels"
    by (simp add: fresh_world_def)
  from mute_frame[OF m] r have
    "users (room_levels\<lparr>users := (users room_levels)(''@bob:x'' \<mapsto> - 1)\<rparr>) (sender bob_spam) = Some (- 1)"
    "\<forall>u. u \<noteq> sender bob_spam \<longrightarrow>
       users (room_levels\<lparr>users := (users room_levels)(''@bob:x'' \<mapsto> - 1)\<rparr>) u = users room_levels u"
    by auto
  moreover have "''@alice:x'' \<noteq> sender bob_spam" by (simp add: bob_facts)
  moreover have "users room_levels ''@alice:x'' = Some 50" by (simp add: room_levels_def)
  ultimately show ?thesis using m r by blast
qed


section \<open>Reactions\<close>

text \<open>
  Claim C4, on the code.  Carol reacts with the report emoji to a message of bob.  The
  event is of type reaction, so the framework does not hand it to the handler: no call
  is made and the world is as it was.  The same holds of every event of that type, for
  every bot and world.
\<close>

theorem reaction_not_handled:
  "etype carol_reaction = REACTION \<and> relates_to_key carol_reaction = Some report_emoji
   \<and> dispatch the_bot carol_reaction fresh_world = Inr fresh_world
   \<and> emitted fresh_world (final (dispatch the_bot carol_reaction fresh_world)) = []
   \<and> (\<forall>b evt w. dispatch b (evt\<lparr>etype := REACTION\<rparr>) w = Inr w)"
  by (simp add: dispatch_def carol_reaction_def)

section \<open>Permission failures and spellings of an identity\<close>

text \<open>
  Claim C3, on the code.  Bob, at two warnings, writes a keyword in a room where the
  homeserver refuses the change of power levels with \<^verbatim>\<open>MForbidden\<close>.  The handler logs the
  exception and raises \<^verbatim>\<open>TypeError\<close>: no reply is sent, neither the one explaining the
  failure nor the one for the keyword, and the count is not written.
\<close>
theorem forbidden_mute_aborts:
  "raised (event_handler the_bot bob_spam forbidding_world) = Some TypeError
   \<and> db (final (event_handler the_bot bob_spam forbidding_world)) = [(''@bob:x'', 2)]
   \<and> emitted forbidding_world (final (event_handler the_bot bob_spam forbidding_world))
       = [LogKeywords [''spam'', ''Scam''], LogDebug ''keyword found'', DbSelect ''@bob:x'',
          LogDebug ''Warning count for user: @bob:x is: 2'', GetStateEvent ''!r:x'',
          SendStateEvent ''!r:x'' (room_levels\<lparr>users := (users room_levels)(''@bob:x'' \<mapsto> - 1)\<rparr>),
          LogException ''I don't seem to have permission to update power levels: no'']"
  by (simp add: event_handler_def the_bot_def spam_config_def found_def bob_spam_def lower_char_def
      forbidding_world_def allowed_msgtypes_def on_match_def get_warning_count_def fetchval_def
      mute_def mute_except_def Let_def emit_def emitted_def str_opt_def str_def str_nat.simps digit_def)

text \<open>
  Claim C5, on the code.  Two writes under two spellings of one identity leave two rows
  in the table, whose keys are equal once lower-cased.
\<close>
theorem casings_make_rows:
  "db (set_warning_count ''@alice:x'' 1 (set_warning_count ''@Alice:x'' 1 fresh_world))
     = [(''@Alice:x'', 1), (''@alice:x'', 1)]
   \<and> lower ''@Alice:x'' = lower ''@alice:x''
   \<and> length (filter (\<lambda>(u, c). lower u = lower ''@alice:x'')
               (db (set_warning_count ''@alice:x'' 1 (set_warning_count ''@Alice:x'' 1 fresh_world))))
       = 2"
  by (simp add: set_warning_count_def Let_def emit_def fresh_world_def upsert_def lower_char_def)

end
